theory Spec2Isabelle
  imports Main
begin

section \<open>Errors\<close>

text \<open>
  The source raises three kinds of exception in the code modelled here:
  \<^item> \<open>IndexError\<close>, from a list subscript out of range;
  \<^item> \<open>ValueError\<close> from \<open>int(cleaned_num)\<close>, whose message is built from the argument
    of \<open>int\<close> alone (\<open>InvalidLiteral\<close> carries that argument);
  \<^item> \<open>ValueError\<close> from the squareness check of \<open>parse_matrix\<close>, whose message is built
    from \<open>n\<close> and \<open>len(row)\<close> (\<open>NotSquare\<close> carries the two numbers, in that order).
\<close>

datatype error = IndexError | InvalidLiteral string | NotSquare nat nat

section \<open>SpiralTraverser.traverse\<close>

subsection \<open>Python lists and ranges\<close>

definition py_index :: "'a list \<Rightarrow> int \<Rightarrow> error + 'a" where
  \<comment> \<open>\<open>xs[i]\<close>: a negative index counts from the end, anything else out of range raises.\<close>
  "py_index xs i =
     (let n = int (length xs); k = (if i < 0 then i + n else i)
      in if 0 \<le> k \<and> k < n then Inr (xs ! nat k) else Inl IndexError)"

definition py_read :: "'a list list \<Rightarrow> int \<Rightarrow> int \<Rightarrow> error + 'a" where
  \<comment> \<open>\<open>matrix[i][j]\<close>: the row is subscripted first, then the column.\<close>
  "py_read matrix i j =
     (case py_index matrix i of Inl e \<Rightarrow> Inl e | Inr row \<Rightarrow> py_index row j)"

definition py_range :: "int \<Rightarrow> int \<Rightarrow> int list" where
  \<comment> \<open>\<open>range(start, stop)\<close>\<close>
  "py_range start stop = [start..stop - 1]"

definition py_range_down :: "int \<Rightarrow> int \<Rightarrow> int list" where
  \<comment> \<open>\<open>range(start, stop, -1)\<close>\<close>
  "py_range_down start stop = rev [stop + 1..start]"

subsection \<open>The loop\<close>

text \<open>
  \<open>for k in ks: result.append(read(k))\<close>: the first read that raises ends the walk with
  its exception.
\<close>

fun for_append :: "(int \<Rightarrow> error + 'a) \<Rightarrow> int list \<Rightarrow> 'a list \<Rightarrow> error + 'a list" where
  "for_append rd [] res = Inr res"
| "for_append rd (k # ks) res =
     (case rd k of Inl e \<Rightarrow> Inl e | Inr v \<Rightarrow> for_append rd ks (res @ [v]))"

text \<open>
  The state of the \<open>while\<close> loop is \<open>(top, bottom, left, right, result)\<close>. \<open>ring\<close> is one
  execution of the loop body, with the subscript \<open>matrix[i][j]\<close> as the parameter \<open>rd\<close>:
  \<open>traverse\<close> runs it with \<open>py_read matrix\<close>.
\<close>

type_synonym 'a spiral_state = "int \<times> int \<times> int \<times> int \<times> 'a list"

fun ring :: "(int \<Rightarrow> int \<Rightarrow> error + 'a) \<Rightarrow> 'a spiral_state \<Rightarrow> error + 'a spiral_state" where
  "ring rd (tp, bottom, left, right, result) =
     (case for_append (\<lambda>i. rd i left) (py_range tp (bottom + 1)) result of
        Inl e \<Rightarrow> Inl e
      | Inr result1 \<Rightarrow>
     (case for_append (\<lambda>j. rd bottom j) (py_range (left + 1) (right + 1)) result1 of
        Inl e \<Rightarrow> Inl e
      | Inr result2 \<Rightarrow>
     (case (if left + 1 \<le> right
            then (case for_append (\<lambda>i. rd i right) (py_range_down (bottom - 1) (tp - 1)) result2 of
                    Inl e \<Rightarrow> Inl e
                  | Inr r \<Rightarrow> Inr (right - 1, r))
            else Inr (right, result2)) of
        Inl e \<Rightarrow> Inl e
      | Inr (right3, result3) \<Rightarrow>
     (case (if tp \<le> bottom - 1
            then (case for_append (\<lambda>j. rd tp j) (py_range_down right3 (left + 1 - 1)) result3 of
                    Inl e \<Rightarrow> Inl e
                  | Inr r \<Rightarrow> Inr (tp + 1, r))
            else Inr (tp, result3)) of
        Inl e \<Rightarrow> Inl e
      | Inr (top4, result4) \<Rightarrow> Inr (top4, bottom - 1, left + 1, right3, result4)))))"

function loop :: "(int \<Rightarrow> int \<Rightarrow> error + 'a) \<Rightarrow> 'a spiral_state \<Rightarrow> error + 'a list" where
  "loop rd (tp, bottom, left, right, result) =
     (if tp \<le> bottom \<and> left \<le> right
      then (case ring rd (tp, bottom, left, right, result) of
              Inl e \<Rightarrow> Inl e
            | Inr s \<Rightarrow> loop rd s)
      else Inr result)"
  by pat_completeness auto
termination
  by (relation "measure (\<lambda>(rd, tp, bottom, left, right, result). nat (right - left + 1))")
     (auto split: sum.splits if_splits)

declare loop.simps [simp del]

definition traverse :: "'a list list \<Rightarrow> error + 'a list" where
  "traverse matrix =
     (if matrix = [] then Inr []
      else let n = int (length matrix)
           in loop (py_read matrix) (0, n - 1, 0, n - 1, []))"

subsection \<open>Squareness, and subscripts that never wrap\<close>

definition square :: "'a list list \<Rightarrow> bool" where
  \<comment> \<open>every row is as long as the matrix has rows\<close>
  "square matrix = (\<forall>row \<in> set matrix. length row = length matrix)"

text \<open>
  \<open>strict_index\<close> is a subscript that raises for every index outside \<open>0 .. len - 1\<close>, also
  for the negative ones that Python counts from the end. \<open>traverse_strict\<close> is \<open>traverse\<close>
  with this subscript: it returns a result only if no read of the traversal left the matrix.
\<close>

definition strict_index :: "'a list \<Rightarrow> int \<Rightarrow> error + 'a" where
  "strict_index xs i =
     (if 0 \<le> i \<and> i < int (length xs) then Inr (xs ! nat i) else Inl IndexError)"

definition strict_read :: "'a list list \<Rightarrow> int \<Rightarrow> int \<Rightarrow> error + 'a" where
  "strict_read matrix i j =
     (case strict_index matrix i of Inl e \<Rightarrow> Inl e | Inr row \<Rightarrow> strict_index row j)"

definition traverse_strict :: "'a list list \<Rightarrow> error + 'a list" where
  "traverse_strict matrix =
     (if matrix = [] then Inr []
      else let n = int (length matrix)
           in loop (strict_read matrix) (0, n - 1, 0, n - 1, []))"

text \<open>
  The cells of the index rectangle \<open>top..bottom \<times> left..right\<close>, and the cells one
  execution of the loop body reads from it, in the order of the reads.
\<close>

definition rect :: "int \<Rightarrow> int \<Rightarrow> int \<Rightarrow> int \<Rightarrow> (int \<times> int) set" where
  "rect tp bottom left right = {tp..bottom} \<times> {left..right}"

definition ring_cells :: "int \<Rightarrow> int \<Rightarrow> int \<Rightarrow> int \<Rightarrow> (int \<times> int) list" where
  "ring_cells tp bottom left right =
     map (\<lambda>i. (i, left)) [tp..bottom]
     @ map (\<lambda>j. (bottom, j)) [left + 1..right]
     @ (if left + 1 \<le> right then map (\<lambda>i. (i, right)) (rev [tp..bottom - 1]) else [])
     @ (if tp \<le> bottom - 1
        then map (\<lambda>j. (tp, j)) (rev [left + 1..(if left + 1 \<le> right then right - 1 else right)])
        else [])"

section \<open>MatrixParser.parse_matrix\<close>

subsection \<open>Python strings\<close>

text \<open>
  A text is a list of characters, one \<open>char\<close> for each code point; the model covers the
  texts whose code points are below 256. \<open>py_isspace\<close> lists the code points below 256 that
  \<open>str.strip()\<close> and \<open>int()\<close> treat as whitespace.
\<close>

definition py_isspace :: "char \<Rightarrow> bool" where
  "py_isspace c = (of_char c \<in> {9, 10, 11, 12, 13, 28, 29, 30, 31, 32, 133, 160 :: nat})"

definition py_strip :: "string \<Rightarrow> string" where
  \<comment> \<open>\<open>s.strip()\<close>\<close>
  "py_strip s = rev (dropWhile py_isspace (rev (dropWhile py_isspace s)))"

definition py_strip_char :: "char \<Rightarrow> string \<Rightarrow> string" where
  \<comment> \<open>\<open>s.strip(c)\<close> for a single character \<open>c\<close>\<close>
  "py_strip_char c s = rev (dropWhile (\<lambda>x. x = c) (rev (dropWhile (\<lambda>x. x = c) s)))"

fun py_split :: "char \<Rightarrow> string \<Rightarrow> string list" where
  \<comment> \<open>\<open>s.split(sep)\<close> for a single character \<open>sep\<close>: one more part than separators\<close>
  "py_split sep [] = [[]]"
| "py_split sep (c # cs) =
     (if c = sep then [] # py_split sep cs
      else (case py_split sep cs of
              [] \<Rightarrow> [[c]]
            | part # parts \<Rightarrow> (c # part) # parts))"

definition startswith :: "string \<Rightarrow> char \<Rightarrow> bool" where
  "startswith s c = (case s of [] \<Rightarrow> False | x # _ \<Rightarrow> x = c)"

text \<open>
  \<open>int(s)\<close> in base 10: surrounding whitespace is dropped, then an optional sign, then
  decimal digits, where single underscores may stand between digits. \<open>None\<close> is the
  \<open>ValueError\<close>. The optional limit that newer interpreters put on the number of digits is
  not part of the model.
\<close>

definition is_digit :: "char \<Rightarrow> bool" where
  "is_digit c = (48 \<le> (of_char c :: nat) \<and> (of_char c :: nat) \<le> 57)"

definition digit_of :: "char \<Rightarrow> int" where
  "digit_of c = int (of_char c) - 48"

fun digits_value :: "bool \<Rightarrow> int \<Rightarrow> string \<Rightarrow> int option" where
  \<comment> \<open>\<open>prev\<close>: the character before was a digit\<close>
  "digits_value prev acc [] = (if prev then Some acc else None)"
| "digits_value prev acc (c # cs) =
     (if is_digit c then digits_value True (10 * acc + digit_of c) cs
      else if c = CHR ''_'' \<and> prev then digits_value False acc cs
      else None)"

definition py_int :: "string \<Rightarrow> int option" where
  "py_int s =
     (case py_strip s of
        [] \<Rightarrow> None
      | c # cs \<Rightarrow>
          if c = CHR ''-'' then map_option uminus (digits_value False 0 cs)
          else if c = CHR ''+'' then digits_value False 0 cs
          else digits_value False 0 (c # cs))"

subsection \<open>The parser\<close>

text \<open>
  \<open>parse_row\<close> is the loop over the fields of a line (\<open>for num in numbers\<close>), \<open>parse_line\<close>
  the body of the loop over the lines, \<open>parse_lines\<close> that loop, \<open>check_rows\<close> the loop of
  the squareness check, and \<open>check_square\<close> the check with its guard \<open>if matrix\<close>.
\<close>

fun parse_row :: "string list \<Rightarrow> int list \<Rightarrow> error + int list" where
  "parse_row [] row = Inr row"
| "parse_row (num # numbers) row =
     (let cleaned_num = py_strip num
      in if cleaned_num \<noteq> []
         then (case py_int cleaned_num of
                 None \<Rightarrow> Inl (InvalidLiteral cleaned_num)
               | Some v \<Rightarrow> parse_row numbers (row @ [v]))
         else parse_row numbers row)"

definition fields :: "string \<Rightarrow> string list" where
  \<comment> \<open>\<open>line.strip('|').split('|')\<close>, of a stripped line\<close>
  "fields line = py_split CHR ''|'' (py_strip_char CHR ''|'' line)"

definition parse_line :: "string \<Rightarrow> int list list \<Rightarrow> error + int list list" where
  "parse_line raw matrix =
     (let line = py_strip raw
      in if startswith line CHR ''+'' then Inr matrix
         else if CHR ''|'' \<in> set line
         then (case parse_row (fields line) [] of
                 Inl e \<Rightarrow> Inl e
               | Inr row \<Rightarrow> if row \<noteq> [] then Inr (matrix @ [row]) else Inr matrix)
         else Inr matrix)"

fun parse_lines :: "string list \<Rightarrow> int list list \<Rightarrow> error + int list list" where
  "parse_lines [] matrix = Inr matrix"
| "parse_lines (line # lines) matrix =
     (case parse_line line matrix of
        Inl e \<Rightarrow> Inl e
      | Inr matrix' \<Rightarrow> parse_lines lines matrix')"

fun check_rows :: "nat \<Rightarrow> int list list \<Rightarrow> error + unit" where
  "check_rows n [] = Inr ()"
| "check_rows n (row # rows) =
     (if length row \<noteq> n then Inl (NotSquare n (length row)) else check_rows n rows)"

definition check_square :: "int list list \<Rightarrow> error + int list list" where
  "check_square matrix =
     (if matrix \<noteq> []
      then (case check_rows (length matrix) matrix of
              Inl e \<Rightarrow> Inl e
            | Inr _ \<Rightarrow> Inr matrix)
      else Inr matrix)"

definition text_lines :: "string \<Rightarrow> string list" where
  \<comment> \<open>\<open>text.strip().split('\n')\<close>\<close>
  "text_lines text = py_split (CHR 0x0A) (py_strip text)"

definition parse_matrix :: "string \<Rightarrow> error + int list list" where
  "parse_matrix text =
     (case parse_lines (text_lines text) [] of
        Inl e \<Rightarrow> Inl e
      | Inr matrix \<Rightarrow> check_square matrix)"

text \<open>
  A data line is a line that the parser splits into fields: stripped, it does not start
  with \<open>+\<close> and contains the separator. Its fields are those of the stripped line.
\<close>

definition data_line :: "string \<Rightarrow> bool" where
  "data_line raw = (\<not> startswith (py_strip raw) CHR ''+'' \<and> CHR ''|'' \<in> set (py_strip raw))"

definition line_fields :: "string \<Rightarrow> string list" where
  "line_fields raw = fields (py_strip raw)"

section \<open>Properties of the traversal\<close>

subsection \<open>One execution of the loop body\<close>

lemma for_append_ok:
  "(\<And>k. k \<in> set ks \<Longrightarrow> rd k = Inr (f k)) \<Longrightarrow> for_append rd ks res = Inr (res @ map f ks)"
  by (induction ks arbitrary: res) auto

lemma ring_ok:
  assumes rd: "\<And>i j. (i, j) \<in> rect tp bottom left right \<Longrightarrow> rd i j = Inr (f i j)"
    and c: "tp \<le> bottom" "left \<le> right"
  shows "ring rd (tp, bottom, left, right, res) =
         Inr (if tp \<le> bottom - 1 then tp + 1 else tp, bottom - 1, left + 1,
              if left + 1 \<le> right then right - 1 else right,
              res @ map (\<lambda>(i, j). f i j) (ring_cells tp bottom left right))"
proof -
  have p1: "for_append (\<lambda>i. rd i left) (py_range tp (bottom + 1)) r
            = Inr (r @ map (\<lambda>i. f i left) [tp..bottom])" for r
    using c by (intro for_append_ok [THEN trans]) (auto simp: py_range_def rect_def intro!: rd)
  have p2: "for_append (\<lambda>j. rd bottom j) (py_range (left + 1) (right + 1)) r
            = Inr (r @ map (\<lambda>j. f bottom j) [left + 1..right])" for r
    using c by (intro for_append_ok [THEN trans]) (auto simp: py_range_def rect_def intro!: rd)
  have p3: "for_append (\<lambda>i. rd i right) (py_range_down (bottom - 1) (tp - 1)) r
            = Inr (r @ map (\<lambda>i. f i right) (rev [tp..bottom - 1]))" for r
    using c by (intro for_append_ok [THEN trans]) (auto simp: py_range_down_def rect_def intro!: rd)
  have p4: "for_append (rd tp) (py_range_down r3 left) r
            = Inr (r @ map (f tp) (rev [left + 1..r3]))" if "r3 \<le> right" for r r3
    using c that by (intro for_append_ok [THEN trans]) (auto simp: py_range_down_def rect_def intro!: rd)
  show ?thesis
    by (simp add: p1 p2 p3 p4 ring_cells_def comp_def rev_map)
qed

lemma image_pair_left: "(\<lambda>x. (x, c)) ` A = A \<times> {c}"
  by auto

lemma image_pair_right: "Pair c ` A = {c} \<times> A"
  by auto

lemma ring_cells_distinct: "distinct (ring_cells tp bottom left right)"
  by (auto simp: ring_cells_def distinct_map inj_on_def)

lemma ring_cells_set:
  assumes "tp \<le> bottom" "left \<le> right"
  shows "set (ring_cells tp bottom left right)
         \<union> rect (if tp \<le> bottom - 1 then tp + 1 else tp) (bottom - 1) (left + 1)
              (if left + 1 \<le> right then right - 1 else right)
         = rect tp bottom left right"
  using assms by (auto simp: ring_cells_def rect_def image_pair_left image_pair_right)

lemma ring_cells_disjoint:
  "set (ring_cells tp bottom left right)
         \<inter> rect (if tp \<le> bottom - 1 then tp + 1 else tp) (bottom - 1) (left + 1)
              (if left + 1 \<le> right then right - 1 else right)
         = {}"
  by (auto simp: ring_cells_def rect_def image_pair_left image_pair_right)

subsection \<open>The whole loop\<close>

text \<open>
  From any bounds, the loop reads the cells of the rectangle \<open>top..bottom \<times> left..right\<close>,
  each once, in an order that does not depend on the subscript function, provided the
  subscript succeeds on the rectangle.
\<close>

lemma loop_cells:
  "\<exists>cs. distinct cs \<and> set cs = rect tp bottom left right
        \<and> (\<forall>rd f res. (\<forall>i j. (i, j) \<in> rect tp bottom left right \<longrightarrow> rd i j = Inr (f i j))
              \<longrightarrow> loop rd (tp, bottom, left, right, res) = Inr (res @ map (\<lambda>(i, j). f i j) cs))"
proof (induction "nat (right - left + 1)" arbitrary: tp bottom left right rule: less_induct)
  case less
  show ?case
  proof (cases "tp \<le> bottom \<and> left \<le> right")
    case False
    then have "rect tp bottom left right = {}"
      by (auto simp: rect_def)
    moreover have "loop rd (tp, bottom, left, right, res) = Inr res" for rd :: "int \<Rightarrow> int \<Rightarrow> error + 'a" and res
      using False by (subst loop.simps) (simp only: if_False)
    ultimately show ?thesis
      by (intro exI [of _ "[]"]) simp
  next
    case True
    let ?tp = "if tp \<le> bottom - 1 then tp + 1 else tp"
    let ?right = "if left + 1 \<le> right then right - 1 else right"
    let ?ring = "ring_cells tp bottom left right"
    have union: "set ?ring \<union> rect ?tp (bottom - 1) (left + 1) ?right = rect tp bottom left right"
      using True by (intro ring_cells_set) auto
    have disj: "set ?ring \<inter> rect ?tp (bottom - 1) (left + 1) ?right = {}"
      by (rule ring_cells_disjoint)
    have "nat (?right - (left + 1) + 1) < nat (right - left + 1)"
      using True by auto
    from less [OF this, of ?tp "bottom - 1"]
    obtain cs where cs: "distinct cs" "set cs = rect ?tp (bottom - 1) (left + 1) ?right"
      and run: "\<And>(rd :: int \<Rightarrow> int \<Rightarrow> error + 'a) f res.
              (\<forall>i j. (i, j) \<in> rect ?tp (bottom - 1) (left + 1) ?right \<longrightarrow> rd i j = Inr (f i j))
              \<Longrightarrow> loop rd (?tp, bottom - 1, left + 1, ?right, res)
                   = Inr (res @ map (\<lambda>(i, j). f i j) cs)"
      by blast
    have "loop rd (tp, bottom, left, right, res) = Inr (res @ map (\<lambda>(i, j). f i j) (?ring @ cs))"
      if good: "\<forall>i j. (i, j) \<in> rect tp bottom left right \<longrightarrow> rd i j = Inr (f i j)"
      for rd :: "int \<Rightarrow> int \<Rightarrow> error + 'a" and f res
    proof -
      let ?res = "res @ map (\<lambda>(i, j). f i j) ?ring"
      have step: "ring rd (tp, bottom, left, right, res)
                    = Inr (?tp, bottom - 1, left + 1, ?right, ?res)"
        using True good by (intro ring_ok) auto
      have "\<forall>i j. (i, j) \<in> rect ?tp (bottom - 1) (left + 1) ?right \<longrightarrow> rd i j = Inr (f i j)"
        using union good by blast
      then have "loop rd (?tp, bottom - 1, left + 1, ?right, ?res)
                   = Inr (?res @ map (\<lambda>(i, j). f i j) cs)"
        by (rule run)
      moreover have "loop rd (tp, bottom, left, right, res)
                       = loop rd (?tp, bottom - 1, left + 1, ?right, ?res)"
        using True by (subst loop.simps) (simp only: step if_True sum.case simp_thms)
      ultimately show ?thesis
        by simp
    qed
    moreover have "distinct (?ring @ cs)"
      using cs disj ring_cells_distinct [of tp bottom left right] by simp
    moreover have "set (?ring @ cs) = rect tp bottom left right"
      using cs union by simp
    ultimately show ?thesis
      by blast
  qed
qed

lemma loop_first_ring:
  assumes c: "tp \<le> bottom" "left \<le> right"
    and good: "\<And>i j. (i, j) \<in> rect tp bottom left right \<Longrightarrow> rd i j = Inr (f i j)"
  shows "\<exists>rest. loop rd (tp, bottom, left, right, res)
           = Inr (res @ map (\<lambda>(i, j). f i j) (ring_cells tp bottom left right) @ rest)"
proof -
  let ?tp = "if tp \<le> bottom - 1 then tp + 1 else tp"
  let ?right = "if left + 1 \<le> right then right - 1 else right"
  let ?res = "res @ map (\<lambda>(i, j). f i j) (ring_cells tp bottom left right)"
  have step: "ring rd (tp, bottom, left, right, res) = Inr (?tp, bottom - 1, left + 1, ?right, ?res)"
    using c good by (intro ring_ok) auto
  have next_good: "\<forall>i j. (i, j) \<in> rect ?tp (bottom - 1) (left + 1) ?right \<longrightarrow> rd i j = Inr (f i j)"
    using ring_cells_set [OF c] good by blast
  from loop_cells [of ?tp "bottom - 1" "left + 1" ?right] next_good
  obtain cs where "loop rd (?tp, bottom - 1, left + 1, ?right, ?res)
                     = Inr (?res @ map (\<lambda>(i, j). f i j) cs)"
    by blast
  moreover have "loop rd (tp, bottom, left, right, res)
                   = loop rd (?tp, bottom - 1, left + 1, ?right, ?res)"
    using c by (subst loop.simps) (simp only: step if_True sum.case simp_thms)
  ultimately show ?thesis
    by simp
qed

lemma ring_cells_left_column:
  "\<exists>rest. ring_cells tp bottom left right = map (\<lambda>i. (i, left)) [tp..bottom] @ rest"
  by (simp add: ring_cells_def)

lemma py_read_square:
  assumes "square m" "(i, j) \<in> rect 0 (int (length m) - 1) 0 (int (length m) - 1)"
  shows "py_read m i j = Inr (m ! nat i ! nat j)"
  using assms by (auto simp: square_def rect_def py_read_def py_index_def Let_def)

lemma strict_read_square:
  assumes "square m" "(i, j) \<in> rect 0 (int (length m) - 1) 0 (int (length m) - 1)"
  shows "strict_read m i j = Inr (m ! nat i ! nat j)"
  using assms by (auto simp: square_def rect_def strict_read_def strict_index_def)

lemma map_nat_upto: "map nat [0..int n - 1] = [0..<n]"
proof (induction n)
  case 0
  show ?case by simp
next
  case (Suc n)
  have "[0..int (Suc n) - 1] = [0..int n - 1] @ [int n]"
    by (subst upto_rec2) (simp_all add: algebra_simps)
  with Suc show ?case by simp
qed

lemma nat_pairs_rect:
  "(\<lambda>(i, j). (nat i, nat j)) ` rect 0 (int n - 1) 0 (int n - 1) = {0..<n} \<times> {0..<n}"
proof -
  have "nat ` {0..int n - 1} = {0..<n}"
    using map_nat_upto [of n] by (metis atLeastLessThan_upt set_map set_upto)
  moreover have "(\<lambda>(i, j). (nat i, nat j)) ` (A \<times> B) = (nat ` A) \<times> (nat ` B)" for A B
    by force
  ultimately show ?thesis by (simp add: rect_def)
qed

lemma nat_pairs_inj: "inj_on (\<lambda>(i, j). (nat i, nat j)) (rect 0 b 0 r)"
  by (auto simp: inj_on_def rect_def)

lemma square_cells:
  assumes sq: "square m"
  shows "\<exists>cs. length cs = length m * length m \<and> distinct cs
              \<and> set cs = {0..<length m} \<times> {0..<length m}
              \<and> (\<forall>rd :: int \<Rightarrow> int \<Rightarrow> error + 'a.
                    (\<forall>i j. (i, j) \<in> rect 0 (int (length m) - 1) 0 (int (length m) - 1)
                           \<longrightarrow> rd i j = Inr (m ! nat i ! nat j))
                    \<longrightarrow> loop rd (0, int (length m) - 1, 0, int (length m) - 1, [])
                        = Inr (map (\<lambda>(i, j). m ! i ! j) cs))"
proof -
  let ?n = "int (length m)"
  from loop_cells [of 0 "?n - 1" 0 "?n - 1"]
  obtain ics where ics: "distinct ics" "set ics = rect 0 (?n - 1) 0 (?n - 1)"
    and run: "\<And>(rd :: int \<Rightarrow> int \<Rightarrow> error + 'a) f res.
              (\<forall>i j. (i, j) \<in> rect 0 (?n - 1) 0 (?n - 1) \<longrightarrow> rd i j = Inr (f i j))
              \<Longrightarrow> loop rd (0, ?n - 1, 0, ?n - 1, res) = Inr (res @ map (\<lambda>(i, j). f i j) ics)"
    by blast
  let ?cs = "map (\<lambda>(i, j). (nat i, nat j)) ics"
  have 1: "map (\<lambda>(i, j). m ! i ! j) ?cs = map (\<lambda>(i, j). m ! nat i ! nat j) ics"
    by (simp add: comp_def case_prod_unfold)
  have 2: "distinct ?cs"
    using ics nat_pairs_inj by (simp add: distinct_map)
  have 3: "set ?cs = {0..<length m} \<times> {0..<length m}"
    using ics(2) nat_pairs_rect [of "length m"] by simp
  have "card (set ?cs) = length ?cs"
    using 2 by (rule distinct_card)
  then have 4: "length ?cs = length m * length m"
    unfolding 3 by simp
  have 5: "loop rd (0, ?n - 1, 0, ?n - 1, []) = Inr (map (\<lambda>(i, j). m ! i ! j) ?cs)"
    if "\<forall>i j. (i, j) \<in> rect 0 (?n - 1) 0 (?n - 1) \<longrightarrow> rd i j = Inr (m ! nat i ! nat j)"
    for rd :: "int \<Rightarrow> int \<Rightarrow> error + 'a"
    using run [OF that, of "[]"] unfolding 1 by simp
  show ?thesis
    by (intro exI [of _ ?cs] conjI allI impI) (fact 4, fact 2, fact 3, erule 5)
qed

subsection \<open>The two examples of the specification\<close>

text \<open>
  C1 (amended). For the matrix \<open>[[1,2,3],[8,9,4],[7,6,5]]\<close>, \<open>traverse\<close> returns
  \<open>[1,8,7,6,5,4,3,2,9]\<close>: down the left column, right along the bottom row, up the right
  column, left along the top row, then the centre.
\<close>

theorem traverse_3x3:
  "traverse [[1, 2, 3], [8, 9, 4], [7, 6, 5 :: int]] = Inr [1, 8, 7, 6, 5, 4, 3, 2, 9]"
  by code_simp

text \<open>
  C1 as stated fails: the result for \<open>[[1,2,3],[8,9,4],[7,6,5]]\<close> is not
  \<open>[1,8,7,6,5,4,9,2,3]\<close>.
\<close>

theorem traverse_3x3_counterexample:
  "traverse [[1, 2, 3], [8, 9, 4], [7, 6, 5 :: int]] \<noteq> Inr [1, 8, 7, 6, 5, 4, 9, 2, 3]"
  by code_simp

text \<open>
  C2 (amended). For the matrix \<open>[[1,2],[4,3]]\<close>, \<open>traverse\<close> returns \<open>[1,4,3,2]\<close>: the
  walk down the left column starts at the top-left cell \<open>1\<close>.
\<close>

theorem traverse_2x2:
  "traverse [[1, 2], [4, 3 :: int]] = Inr [1, 4, 3, 2]"
  by code_simp

text \<open>
  C2 as stated fails: the result for \<open>[[1,2],[4,3]]\<close> is not \<open>[4,3,2,1]\<close>.
\<close>

theorem traverse_2x2_counterexample:
  "traverse [[1, 2], [4, 3 :: int]] \<noteq> Inr [4, 3, 2, 1]"
  by code_simp

subsection \<open>Every square matrix\<close>

text \<open>
  C3. For every non-empty square matrix of dimension \<open>n\<close>, \<open>traverse\<close> returns a sequence
  whose first \<open>n\<close> elements are the left column from top to bottom: the first element is
  the cell at row 0, column 0, and for \<open>n \<ge> 2\<close> the second is the cell at row 1, column 0.
\<close>

theorem traverse_starts_down_left_column:
  assumes "square m" "m \<noteq> []"
  shows "\<exists>out. traverse m = Inr out
            \<and> take (length m) out = map (\<lambda>i. m ! i ! 0) [0..<length m]
            \<and> out ! 0 = m ! 0 ! 0
            \<and> (2 \<le> length m \<longrightarrow> out ! 1 = m ! 1 ! 0)"
proof -
  let ?n = "int (length m)"
  let ?f = "\<lambda>i j. m ! nat i ! nat j"
  have c: "0 \<le> ?n - 1"
    using assms(2) by (cases m) auto
  have "\<exists>rest. loop (py_read m) (0, ?n - 1, 0, ?n - 1, [])
      = Inr ([] @ map (\<lambda>(i, j). ?f i j) (ring_cells 0 (?n - 1) 0 (?n - 1)) @ rest)"
    using c c by (rule loop_first_ring) (rule py_read_square [OF assms(1)])
  then obtain rest where run: "loop (py_read m) (0, ?n - 1, 0, ?n - 1, [])
      = Inr (map (\<lambda>(i, j). ?f i j) (ring_cells 0 (?n - 1) 0 (?n - 1)) @ rest)"
    by auto
  obtain rest' where "ring_cells 0 (?n - 1) 0 (?n - 1) = map (\<lambda>i. (i, 0)) [0..?n - 1] @ rest'"
    using ring_cells_left_column by blast
  then have "map (\<lambda>(i, j). ?f i j) (ring_cells 0 (?n - 1) 0 (?n - 1))
               = map (\<lambda>i. m ! i ! 0) (map nat [0..?n - 1]) @ map (\<lambda>(i, j). ?f i j) rest'"
    by (simp add: comp_def)
  with run have out: "traverse m
      = Inr (map (\<lambda>i. m ! i ! 0) [0..<length m] @ (map (\<lambda>(i, j). ?f i j) rest' @ rest))"
    using assms(2) by (simp add: traverse_def Let_def map_nat_upto)
  let ?col = "map (\<lambda>i. m ! i ! 0) [0..<length m]"
  let ?tail = "map (\<lambda>(i, j). ?f i j) rest' @ rest"
  have len: "length ?col = length m"
    by simp
  have t: "take (length m) (?col @ ?tail) = ?col"
    using len by simp
  have n0: "0 < length m"
    using assms(2) by simp
  have e0: "(?col @ ?tail) ! 0 = m ! 0 ! 0"
    using n0 by (simp add: nth_append)
  have e1: "2 \<le> length m \<longrightarrow> (?col @ ?tail) ! 1 = m ! 1 ! 0"
    by (simp add: nth_append)
  show ?thesis
    using out t e0 e1 by (intro exI [of _ "?col @ ?tail"]) (simp only: simp_thms)
qed

theorem traverse_starts_down_left_column_witness:
  "square [[1, 2], [4, 3 :: int]] \<and> [[1, 2], [4, 3 :: int]] \<noteq> []
   \<and> (\<exists>out. traverse [[1, 2], [4, 3 :: int]] = Inr out
            \<and> take (length [[1, 2], [4, 3 :: int]]) out = map (\<lambda>i. [[1, 2], [4, 3 :: int]] ! i ! 0) [0..<length [[1, 2], [4, 3 :: int]]]
            \<and> out ! 0 = [[1, 2], [4, 3 :: int]] ! 0 ! 0
            \<and> (2 \<le> length [[1, 2], [4, 3 :: int]] \<longrightarrow> out ! 1 = [[1, 2], [4, 3 :: int]] ! 1 ! 0))"
proof -
  have sq: "square [[1, 2], [4, 3 :: int]]"
    by (simp add: square_def)
  have ne: "[[1, 2], [4, 3 :: int]] \<noteq> []"
    by simp
  from sq ne traverse_starts_down_left_column [OF sq ne] show ?thesis
    by (intro conjI)
qed

text \<open>
  C4. For every square matrix of dimension \<open>n\<close>, \<open>traverse\<close> returns (the loop is a total
  function, and the result is not an exception) the values of a sequence of \<open>n * n\<close> cells
  in which no cell occurs twice and every cell of the matrix occurs.
\<close>

theorem traverse_visits_every_cell_once:
  assumes "square m"
  shows "\<exists>cs. traverse m = Inr (map (\<lambda>(i, j). m ! i ! j) cs)
              \<and> length cs = length m * length m \<and> distinct cs
              \<and> set cs = {0..<length m} \<times> {0..<length m}"
proof (cases "m = []")
  case True
  then show ?thesis
    by (intro exI [of _ "[]"]) (simp add: traverse_def)
next
  case False
  from square_cells [OF assms] obtain cs where cs:
    "length cs = length m * length m" "distinct cs" "set cs = {0..<length m} \<times> {0..<length m}"
    "loop (py_read m) (0, int (length m) - 1, 0, int (length m) - 1, [])
       = Inr (map (\<lambda>(i, j). m ! i ! j) cs)"
    using py_read_square [OF assms] by blast
  with False show ?thesis
    by (intro exI [of _ cs]) (simp add: traverse_def Let_def)
qed

theorem traverse_visits_every_cell_once_witness:
  "square [[1, 2], [4, 3 :: int]]
   \<and> (\<exists>cs. traverse [[1, 2], [4, 3 :: int]] = Inr (map (\<lambda>(i, j). [[1, 2], [4, 3 :: int]] ! i ! j) cs)
           \<and> length cs = length [[1, 2], [4, 3 :: int]] * length [[1, 2], [4, 3 :: int]] \<and> distinct cs
           \<and> set cs = {0..<length [[1, 2], [4, 3 :: int]]} \<times> {0..<length [[1, 2], [4, 3 :: int]]})"
proof -
  have sq: "square [[1, 2], [4, 3 :: int]]"
    by (simp add: square_def)
  from sq traverse_visits_every_cell_once [OF sq] show ?thesis
    by (intro conjI)
qed

text \<open>
  C10. For every square matrix, \<open>traverse\<close> returns a result and raises no exception, and
  the traversal whose subscripts raise for every index outside \<open>0 .. n - 1\<close> (negative ones
  included) returns the same result: no read of \<open>traverse\<close> is out of bounds.
\<close>

theorem traverse_indices_in_bounds:
  assumes "square m"
  shows "\<exists>out. traverse m = Inr out \<and> traverse_strict m = Inr out"
proof (cases "m = []")
  case True
  then show ?thesis
    by (simp add: traverse_def traverse_strict_def)
next
  case False
  from square_cells [OF assms] obtain cs where
    run: "\<And>rd :: int \<Rightarrow> int \<Rightarrow> error + 'a.
            (\<forall>i j. (i, j) \<in> rect 0 (int (length m) - 1) 0 (int (length m) - 1)
                   \<longrightarrow> rd i j = Inr (m ! nat i ! nat j))
            \<Longrightarrow> loop rd (0, int (length m) - 1, 0, int (length m) - 1, [])
                = Inr (map (\<lambda>(i, j). m ! i ! j) cs)"
    by blast
  have "loop (py_read m) (0, int (length m) - 1, 0, int (length m) - 1, [])
          = Inr (map (\<lambda>(i, j). m ! i ! j) cs)"
    using py_read_square [OF assms] by (intro run) blast
  moreover have "loop (strict_read m) (0, int (length m) - 1, 0, int (length m) - 1, [])
          = Inr (map (\<lambda>(i, j). m ! i ! j) cs)"
    using strict_read_square [OF assms] by (intro run) blast
  ultimately show ?thesis
    using False by (simp add: traverse_def traverse_strict_def Let_def)
qed

theorem traverse_indices_in_bounds_witness:
  "square [[1, 2], [4, 3 :: int]] \<and> (\<exists>out. traverse [[1, 2], [4, 3 :: int]] = Inr out \<and> traverse_strict [[1, 2], [4, 3 :: int]] = Inr out)"
proof -
  have sq: "square [[1, 2], [4, 3 :: int]]"
    by (simp add: square_def)
  from sq traverse_indices_in_bounds [OF sq] show ?thesis
    by (intro conjI)
qed

section \<open>Properties of the parser\<close>

subsection \<open>Fields that are not integers\<close>



lemma parse_row_blank:
  assumes "\<forall>num \<in> set numbers. py_strip num = []"
  shows "parse_row numbers row = Inr row"
  using assms by (induction numbers arbitrary: row) (auto simp: Let_def)








subsection \<open>The squareness check\<close>

lemma check_rows_error:
  assumes "check_rows n rows = Inl e"
  shows "\<exists>pre row post. rows = pre @ row # post \<and> (\<forall>r \<in> set pre. length r = n)
           \<and> length row \<noteq> n \<and> e = NotSquare n (length row)"
  using assms
proof (induction rows)
  case Nil
  then show ?case by simp
next
  case (Cons r rows)
  show ?case
  proof (cases "length r = n")
    case False
    with Cons.prems have "e = NotSquare n (length r)" by simp
    with False show ?thesis
      by (intro exI [of _ "[]"] exI [of _ r] exI [of _ rows]) simp
  next
    case True
    with Cons.prems have "check_rows n rows = Inl e" by simp
    from Cons.IH [OF this] obtain pre row post where
      "rows = pre @ row # post" "\<forall>r \<in> set pre. length r = n" "length row \<noteq> n"
      "e = NotSquare n (length row)"
      by blast
    with True show ?thesis
      by (intro exI [of _ "r # pre"] exI [of _ row] exI [of _ post]) simp
  qed
qed

lemma check_rows_fails:
  assumes "row \<in> set rows" "length row \<noteq> n"
  shows "\<exists>e. check_rows n rows = Inl e"
  using assms by (induction rows) auto

text \<open>
  C7. If the lines are processed without error and a retained row has a number of fields
  other than the number \<open>n\<close> of retained rows, \<open>parse_matrix\<close> returns no matrix: it fails
  with the squareness error, which carries \<open>n\<close> as the expected count and, as the actual
  count, the number of fields of a retained row, different from \<open>n\<close>.
\<close>

theorem parse_matrix_not_square:
  assumes "parse_lines (text_lines text) [] = Inr rows" "row \<in> set rows"
    "length row \<noteq> length rows"
  shows "\<exists>k. parse_matrix text = Inl (NotSquare (length rows) k)
           \<and> k \<noteq> length rows \<and> k \<in> length ` set rows"
proof -
  from check_rows_fails [OF assms(2,3)] obtain e where e: "check_rows (length rows) rows = Inl e"
    by blast
  from assms(2) have "rows \<noteq> []" by auto
  with e assms(1) have pm: "parse_matrix text = Inl e"
    by (simp add: parse_matrix_def check_square_def)
  from check_rows_error [OF e] obtain pre r post where
    "rows = pre @ r # post" "length r \<noteq> length rows" "e = NotSquare (length rows) (length r)"
    by blast
  with pm show ?thesis
    by (intro exI [of _ "length r"]) auto
qed

theorem parse_matrix_not_square_witness:
  "parse_lines (text_lines (''|1|2|3|'' @ [CHR 0x0A] @ ''|4|5|6|'')) [] = Inr [[1, 2, 3], [4, 5, 6]]
   \<and> [4, 5, 6] \<in> set [[1, 2, 3], [4, 5, 6 :: int]]
   \<and> length [4, 5, 6 :: int] \<noteq> length [[1, 2, 3], [4, 5, 6 :: int]]
   \<and> (\<exists>k. parse_matrix (''|1|2|3|'' @ [CHR 0x0A] @ ''|4|5|6|'')
              = Inl (NotSquare (length [[1, 2, 3], [4, 5, 6 :: int]]) k)
           \<and> k \<noteq> length [[1, 2, 3], [4, 5, 6 :: int]]
           \<and> k \<in> length ` set [[1, 2, 3], [4, 5, 6 :: int]])"
proof -
  have 1: "parse_lines (text_lines (''|1|2|3|'' @ [CHR 0x0A] @ ''|4|5|6|'')) []
             = Inr [[1, 2, 3], [4, 5, 6]]"
    by code_simp
  have 2: "[4, 5, 6] \<in> set [[1, 2, 3], [4, 5, 6 :: int]]"
    by simp
  have 3: "length [4, 5, 6 :: int] \<noteq> length [[1, 2, 3], [4, 5, 6 :: int]]"
    by simp
  from 1 2 3 parse_matrix_not_square [OF 1 2 3] show ?thesis
    by (intro conjI)
qed

text \<open>
  C8 (amended). When \<open>parse_matrix\<close> fails after the lines were processed without error,
  the error is the squareness error: it names as the expected count the number \<open>n\<close> of
  retained rows, and as the actual count the number of fields of the first retained row
  whose number of fields is not \<open>n\<close>.
\<close>

theorem parse_matrix_shape_error_payload:
  assumes "parse_lines (text_lines text) [] = Inr rows" "parse_matrix text = Inl e"
  shows "\<exists>pre row post. rows = pre @ row # post \<and> (\<forall>r \<in> set pre. length r = length rows)
           \<and> length row \<noteq> length rows \<and> e = NotSquare (length rows) (length row)"
proof -
  from assms have "check_rows (length rows) rows = Inl e"
    by (auto simp: parse_matrix_def check_square_def split: if_splits sum.splits)
  then show ?thesis
    by (rule check_rows_error)
qed

theorem parse_matrix_shape_error_payload_witness:
  "parse_lines (text_lines (''|1|2|'' @ [CHR 0x0A] @ ''|3|4|5|'')) [] = Inr [[1, 2], [3, 4, 5]]
   \<and> parse_matrix (''|1|2|'' @ [CHR 0x0A] @ ''|3|4|5|'') = Inl (NotSquare 2 3)
   \<and> (\<exists>pre row post. [[1, 2], [3, 4, 5 :: int]] = pre @ row # post
           \<and> (\<forall>r \<in> set pre. length r = length [[1, 2], [3, 4, 5 :: int]])
           \<and> length row \<noteq> length [[1, 2], [3, 4, 5 :: int]]
           \<and> NotSquare 2 3 = NotSquare (length [[1, 2], [3, 4, 5 :: int]]) (length row))"
proof -
  have 1: "parse_lines (text_lines (''|1|2|'' @ [CHR 0x0A] @ ''|3|4|5|'')) [] = Inr [[1, 2], [3, 4, 5]]"
    by code_simp
  have 2: "parse_matrix (''|1|2|'' @ [CHR 0x0A] @ ''|3|4|5|'') = Inl (NotSquare 2 3)"
    by code_simp
  from 1 2 parse_matrix_shape_error_payload [OF 1 2] show ?thesis
    by (intro conjI)
qed

text \<open>
  C8 as stated fails: the rows of the text below have 3 and 2 fields. The claim names 3,
  the width of the first row, as the expected count, and 2 as the actual count; the error
  names 2, the number of rows, as the expected count, and 3, the width of the first row,
  as the actual count.
\<close>

theorem parse_matrix_shape_error_counterexample:
  "parse_lines (text_lines (''|1|2|3|'' @ [CHR 0x0A] @ ''|4|5|'')) [] = Inr [[1, 2, 3], [4, 5]]
   \<and> parse_matrix (''|1|2|3|'' @ [CHR 0x0A] @ ''|4|5|'') = Inl (NotSquare 2 3)
   \<and> parse_matrix (''|1|2|3|'' @ [CHR 0x0A] @ ''|4|5|'')
       \<noteq> Inl (NotSquare (length [1, 2, 3 :: int]) (length [4, 5 :: int]))"
  by code_simp

subsection \<open>Lines without integers\<close>

lemma parse_line_blank:
  assumes "\<forall>num \<in> set (line_fields raw). py_strip num = []"
  shows "parse_line raw matrix = Inr matrix"
  using parse_row_blank [of "fields (py_strip raw)" "[]"] assms
  by (simp add: parse_line_def line_fields_def Let_def)

lemma parse_lines_append:
  "parse_lines (pre @ post) matrix =
     (case parse_lines pre matrix of Inl e \<Rightarrow> Inl e | Inr matrix' \<Rightarrow> parse_lines post matrix')"
  by (induction pre arbitrary: matrix) (auto split: sum.splits)

text \<open>
  C9. A data line whose fields are all empty after trimming is discarded: processing it
  leaves the matrix as it was and raises nothing, and the result of \<open>parse_matrix\<close> is the
  result for the lines without it (no row, no count towards the number of rows, no error).
\<close>

theorem blank_data_line_discarded:
  assumes "data_line raw" "\<forall>num \<in> set (line_fields raw). py_strip num = []"
    "text_lines text = pre @ raw # post"
  shows "parse_line raw matrix = Inr matrix
         \<and> parse_lines (text_lines text) matrix = parse_lines (pre @ post) matrix
         \<and> parse_matrix text = (case parse_lines (pre @ post) [] of
                                  Inl e \<Rightarrow> Inl e | Inr rows \<Rightarrow> check_square rows)"
proof -
  have 1: "parse_line raw m = Inr m" for m
    using assms(2) by (rule parse_line_blank)
  have 2: "parse_lines (pre @ raw # post) m = parse_lines (pre @ post) m" for m
    by (simp add: parse_lines_append [of pre] 1 split: sum.splits)
  show ?thesis
    using 1 2 by (simp add: parse_matrix_def assms(3))
qed

theorem blank_data_line_discarded_witness:
  "data_line ''| | |'' \<and> list_all (\<lambda>num. py_strip num = []) (line_fields ''| | |'')
   \<and> text_lines (''|7|'' @ [CHR 0x0A] @ ''| | |'') = [''|7|''] @ ''| | |'' # []
   \<and> parse_line ''| | |'' [[7]] = Inr [[7]]
   \<and> parse_lines (text_lines (''|7|'' @ [CHR 0x0A] @ ''| | |'')) [[7]]
       = parse_lines ([''|7|''] @ []) [[7]]
   \<and> parse_matrix (''|7|'' @ [CHR 0x0A] @ ''| | |'')
       = (case parse_lines ([''|7|''] @ []) [] of
            Inl e \<Rightarrow> Inl e | Inr rows \<Rightarrow> check_square rows)"
proof -
  have 1: "data_line ''| | |''"
    by code_simp
  have 2: "list_all (\<lambda>num. py_strip num = []) (line_fields ''| | |'')"
    by code_simp
  then have b: "\<forall>num \<in> set (line_fields ''| | |''). py_strip num = []"
    by (simp only: list_all_iff)
  have 3: "text_lines (''|7|'' @ [CHR 0x0A] @ ''| | |'') = [''|7|''] @ ''| | |'' # []"
    by code_simp
  from 1 2 3 blank_data_line_discarded [OF 1 b 3, of "[[7]]"] show ?thesis
    by (intro conjI) simp_all
qed

lemma parse_lines_no_rows:
  assumes "\<forall>raw \<in> set lines. \<not> data_line raw \<or> (\<forall>num \<in> set (line_fields raw). py_strip num = [])"
  shows "parse_lines lines matrix = Inr matrix"
  using assms
proof (induction lines arbitrary: matrix)
  case Nil
  then show ?case by simp
next
  case (Cons raw lines)
  have "parse_line raw matrix = Inr matrix"
  proof (cases "data_line raw")
    case True
    with Cons.prems show ?thesis
      by (intro parse_line_blank) simp
  next
    case False
    then show ?thesis
      by (auto simp: parse_line_def data_line_def Let_def)
  qed
  with Cons show ?case by simp
qed

text \<open>
  C5. If the text has no data row (every line is a border line, has no separator, or has
  only fields that are empty after trimming), \<open>parse_matrix\<close> succeeds and returns the empty
  matrix; and \<open>traverse\<close> of the empty matrix returns the empty sequence, without error.
\<close>

theorem no_data_rows_empty:
  assumes "\<forall>raw \<in> set (text_lines text).
             \<not> data_line raw \<or> (\<forall>num \<in> set (line_fields raw). py_strip num = [])"
  shows "parse_matrix text = Inr [] \<and> traverse ([] :: int list list) = Inr []"
  using parse_lines_no_rows [OF assms, of "[]"]
  by (simp add: parse_matrix_def check_square_def traverse_def)

theorem no_data_rows_empty_witness:
  "list_all (\<lambda>raw. \<not> data_line raw \<or> list_all (\<lambda>num. py_strip num = []) (line_fields raw))
     (text_lines (''+---+'' @ [CHR 0x0A] @ [CHR 0x0A] @ ''||''))
   \<and> parse_matrix (''+---+'' @ [CHR 0x0A] @ [CHR 0x0A] @ ''||'') = Inr []
   \<and> traverse ([] :: int list list) = Inr []"
proof -
  have 1: "list_all (\<lambda>raw. \<not> data_line raw \<or> list_all (\<lambda>num. py_strip num = []) (line_fields raw))
             (text_lines (''+---+'' @ [CHR 0x0A] @ [CHR 0x0A] @ ''||''))"
    by code_simp
  then have 2: "\<forall>raw \<in> set (text_lines (''+---+'' @ [CHR 0x0A] @ [CHR 0x0A] @ ''||'')).
             \<not> data_line raw \<or> (\<forall>num \<in> set (line_fields raw). py_strip num = [])"
    by (simp only: list_all_iff)
  from 1 no_data_rows_empty [OF 2] show ?thesis
    by (intro conjI) simp_all
qed

end
